theory Spec2Isabelle
  imports Main "HOL-Library.Multiset" "HOL-Library.Char_ord" "HOL-Library.List_Lexorder"
    "HOL-Library.Product_Lexorder" "HOL-Library.AList" "HOL-Library.Sublist"
begin

section \<open>File and directory helpers of nuitka/utils/FileOperations.py\<close>

text \<open>
  The module is a thin layer over \<open>os\<close>, \<open>os.path\<close> and \<open>shutil\<close>. The embedding
  fixes the POSIX flavour of \<open>os.path\<close> (\<open>posixpath\<close>) and writes the library functions
  the module calls as HOL functions next to the module's own functions, which keep their
  names.
\<close>

subsection \<open>Errors\<close>

datatype oserror =
    NotFound
  | FileExists
  | NotADirectory
  | IsADirectory
  | PermissionDenied
  | DirectoryNotEmpty
  | InvalidArgument
  | CrossVolume
  | TransientLock
  | SameFile

text \<open>
  \<open>oserror\<close> lists the kinds of \<open>OSError\<close> the operating system calls raise, so that
  an \<open>except OSError\<close> clause catches every value of the type. \<open>TypeError\<close> is what a
  call with a missing positional argument raises.
\<close>

datatype error = OSError oserror | TypeError

subsection \<open>\<open>posixpath\<close>: split, join, normpath, abspath, normcase\<close>

type_synonym path = string

definition sep :: char where
  "sep = CHR ''/''"

definition rstrip_sep :: "string \<Rightarrow> string" where
  "rstrip_sep s = rev (dropWhile (\<lambda>c. c = sep) (rev s))"

text \<open>
  \<open>posixpath.split\<close>: \<open>i = p.rfind('/') + 1\<close>, \<open>head, tail = p[:i], p[i:]\<close>, and the
  head loses its trailing slashes unless it is empty or made of slashes only.
\<close>

definition posix_split :: "path \<Rightarrow> path \<times> path" where
  "posix_split p =
     (let head = rev (dropWhile (\<lambda>c. c \<noteq> sep) (rev p));
          tail = rev (takeWhile (\<lambda>c. c \<noteq> sep) (rev p))
      in (if head \<noteq> [] \<and> head \<noteq> replicate (length head) sep then rstrip_sep head else head,
          tail))"

text \<open>
  \<open>posixpath.join(a, *p)\<close>: the first argument is required, each further component
  replaces the path when it is absolute and is appended otherwise.
\<close>

definition join_step :: "path \<Rightarrow> path \<Rightarrow> path" where
  "join_step pth b =
     (if b \<noteq> [] \<and> hd b = sep then b
      else if pth = [] \<or> last pth = sep then pth @ b
      else pth @ sep # b)"

fun posix_join :: "path list \<Rightarrow> error + path" where
  "posix_join [] = Inl TypeError"
| "posix_join (a # ps) = Inr (foldl join_step a ps)"

definition join2 :: "path \<Rightarrow> path \<Rightarrow> path" where
  "join2 a b = join_step a b"

text \<open>\<open>str.split('/')\<close>: the fields between separators, empty fields kept.\<close>

fun split_on :: "char \<Rightarrow> string \<Rightarrow> string list" where
  "split_on c [] = [[]]"
| "split_on c (x # xs) =
     (if x = c then [] # split_on c xs
      else (case split_on c xs of [] \<Rightarrow> [[x]] | w # ws \<Rightarrow> (x # w) # ws))"

fun sep_join :: "string list \<Rightarrow> string" where
  "sep_join [] = []"
| "sep_join [x] = x"
| "sep_join (x # y # ys) = x @ sep # sep_join (y # ys)"

definition initial_slashes :: "path \<Rightarrow> nat" where
  "initial_slashes p =
     (if take 1 p = [sep]
      then (if take 2 p = [sep, sep] \<and> take 3 p \<noteq> [sep, sep, sep] then 2 else 1)
      else 0)"

definition norm_step :: "nat \<Rightarrow> string list \<Rightarrow> string \<Rightarrow> string list" where
  "norm_step nsl new_comps seg =
     (if seg = [] \<or> seg = ''.'' then new_comps
      else if seg \<noteq> ''..'' \<or> (nsl = 0 \<and> new_comps = [])
                \<or> (new_comps \<noteq> [] \<and> last new_comps = ''..'')
           then new_comps @ [seg]
      else if new_comps \<noteq> [] then butlast new_comps
      else new_comps)"

definition posix_normpath :: "path \<Rightarrow> path" where
  "posix_normpath p =
     (if p = [] then ''.''
      else let nsl = initial_slashes p;
               comps = foldl (norm_step nsl) [] (split_on sep p);
               res = replicate nsl sep @ sep_join comps
           in if res = [] then ''.'' else res)"

definition isabs :: "path \<Rightarrow> bool" where
  "isabs p = (take 1 p = [sep])"

text \<open>\<open>posixpath.abspath\<close> reads the current working directory, passed here as \<open>cwd\<close>.\<close>

definition posix_abspath :: "path \<Rightarrow> path \<Rightarrow> path" where
  "posix_abspath cwd p = posix_normpath (if isabs p then p else join2 cwd p)"


subsection \<open>splitPath\<close>

text \<open>
  \<open>tuple(element for element in os.path.split(path) if element)\<close>; the tuple is a list.
\<close>

definition splitPath :: "path \<Rightarrow> path list" where
  "splitPath p = filter (\<lambda>element. element \<noteq> []) [fst (posix_split p), snd (posix_split p)]"

subsection \<open>areSamePaths\<close>


subsection \<open>The file system and the process state\<close>

type_synonym name = string
type_synonym mode = nat

datatype node = File mode string | Dir mode "(name \<times> node) list"

fun mode_of :: "node \<Rightarrow> mode" where
  "mode_of (File m c) = m"
| "mode_of (Dir m es) = m"

fun set_mode :: "mode \<Rightarrow> node \<Rightarrow> node" where
  "set_mode m (File m' c) = File m c"
| "set_mode m (Dir m' es) = Dir m es"

fun node_at :: "node \<Rightarrow> name list \<Rightarrow> node option" where
  "node_at n [] = Some n"
| "node_at (File m c) (k # ks) = None"
| "node_at (Dir m es) (k # ks) = (case map_of es k of None \<Rightarrow> None | Some c \<Rightarrow> node_at c ks)"


fun node_remove :: "name list \<Rightarrow> node \<Rightarrow> node" where
  "node_remove [] t = t"
| "node_remove (k # ks) (File m c) = File m c"
| "node_remove (k # ks) (Dir m es) =
     (if ks = [] then Dir m (AList.delete k es)
      else case map_of es k of
             None \<Rightarrow> Dir m es
           | Some c \<Rightarrow> Dir m (AList.update k (node_remove ks c) es))"

text \<open>
  The calls a function makes are recorded in a trace, so that a statement can say which
  operations were attempted and in which order.
\<close>

datatype event =
    EvUnlink path
  | EvRmdir path
  | EvListdir path
  | EvLstat path
  | EvStat path
  | EvRename path path
  | EvCopyfile path path
  | EvChmod path mode
  | EvMakedirs path
  | EvOpen path
  | EvScandir path
  | EvClose path
  | EvSleep

text \<open>
  \<open>root\<close> is the directory tree, \<open>cwd\<close> the working directory. \<open>faults\<close> is what the
  environment does to the coming system calls: each call takes the head of the list and
  fails with that error when there is one (a scanner holding the file, a rename across
  volumes), and runs normally on \<open>None\<close> or on an empty list. \<open>file_lock\<close> is the module
  global: \<open>None\<close> before the first use, \<open>Some held\<close> afterwards. \<open>use_fd_functions\<close>
  is \<open>shutil._use_fd_functions\<close> of the interpreter: true for Python 3 on POSIX, false
  for Python 2 and on Windows.
\<close>

record world =
  root :: node
  cwd :: path
  faults :: "oserror option list"
  trace :: "event list"
  file_lock :: "bool option"
  use_fd_functions :: bool

type_synonym 'a result = "(oserror + 'a) \<times> world"

definition log :: "event \<Rightarrow> world \<Rightarrow> world" where
  "log ev w = w\<lparr>trace := trace w @ [ev]\<rparr>"

definition take_fault :: "world \<Rightarrow> oserror option \<times> world" where
  "take_fault w = (case faults w of [] \<Rightarrow> (None, w) | f # fs \<Rightarrow> (f, w\<lparr>faults := fs\<rparr>))"

definition resolve :: "world \<Rightarrow> path \<Rightarrow> name list" where
  "resolve w p = filter (\<lambda>s. s \<noteq> []) (split_on sep (posix_abspath (cwd w) p))"

text \<open>The empty string names no file: every call on it fails with \<open>NotFound\<close>.\<close>

definition lookup :: "world \<Rightarrow> path \<Rightarrow> node option" where
  "lookup w p = (if p = [] then None else node_at (root w) (resolve w p))"

definition os_path_exists :: "path \<Rightarrow> world \<Rightarrow> bool" where
  "os_path_exists p w = (lookup w p \<noteq> None)"

definition os_path_isfile :: "path \<Rightarrow> world \<Rightarrow> bool" where
  "os_path_isfile p w = (case lookup w p of Some (File m c) \<Rightarrow> True | _ \<Rightarrow> False)"

definition os_path_isdir :: "path \<Rightarrow> world \<Rightarrow> bool" where
  "os_path_isdir p w = (case lookup w p of Some (Dir m es) \<Rightarrow> True | _ \<Rightarrow> False)"

subsection \<open>System calls\<close>

definition os_unlink :: "path \<Rightarrow> world \<Rightarrow> unit result" where
  "os_unlink p w0 =
     (let (f, w) = take_fault (log (EvUnlink p) w0) in
      case f of
        Some e \<Rightarrow> (Inl e, w)
      | None \<Rightarrow>
          (case lookup w p of
             None \<Rightarrow> (Inl NotFound, w)
           | Some (Dir m es) \<Rightarrow> (Inl IsADirectory, w)
           | Some (File m c) \<Rightarrow> (Inr (), w\<lparr>root := node_remove (resolve w p) (root w)\<rparr>)))"

definition os_rmdir :: "path \<Rightarrow> world \<Rightarrow> unit result" where
  "os_rmdir p w0 =
     (let (f, w) = take_fault (log (EvRmdir p) w0) in
      case f of
        Some e \<Rightarrow> (Inl e, w)
      | None \<Rightarrow>
          (case lookup w p of
             None \<Rightarrow> (Inl NotFound, w)
           | Some (File m c) \<Rightarrow> (Inl NotADirectory, w)
           | Some (Dir m es) \<Rightarrow>
               if es \<noteq> [] then (Inl DirectoryNotEmpty, w)
               else if resolve w p = [] then (Inl PermissionDenied, w)
               else (Inr (), w\<lparr>root := node_remove (resolve w p) (root w)\<rparr>)))"

definition os_listdir :: "path \<Rightarrow> world \<Rightarrow> name list result" where
  "os_listdir p w0 =
     (let (f, w) = take_fault (log (EvListdir p) w0) in
      case f of
        Some e \<Rightarrow> (Inl e, w)
      | None \<Rightarrow>
          (case lookup w p of
             None \<Rightarrow> (Inl NotFound, w)
           | Some (File m c) \<Rightarrow> (Inl NotADirectory, w)
           | Some (Dir m es) \<Rightarrow> (Inr (map fst es), w)))"

text \<open>\<open>os.stat(p).st_mode\<close> and \<open>os.lstat(p).st_mode\<close>; there are no symbolic links.\<close>

definition os_stat :: "path \<Rightarrow> world \<Rightarrow> node result" where
  "os_stat p w0 =
     (let (f, w) = take_fault (log (EvStat p) w0) in
      case f of
        Some e \<Rightarrow> (Inl e, w)
      | None \<Rightarrow> (case lookup w p of None \<Rightarrow> (Inl NotFound, w) | Some n \<Rightarrow> (Inr n, w)))"

definition os_lstat :: "path \<Rightarrow> world \<Rightarrow> node result" where
  "os_lstat p w0 =
     (let (f, w) = take_fault (log (EvLstat p) w0) in
      case f of
        Some e \<Rightarrow> (Inl e, w)
      | None \<Rightarrow> (case lookup w p of None \<Rightarrow> (Inl NotFound, w) | Some n \<Rightarrow> (Inr n, w)))"




text \<open>\<open>os.makedirs\<close>: the directory and every missing ancestor, with mode \<open>0o755\<close>.\<close>

fun mkdirs :: "name list \<Rightarrow> node \<Rightarrow> oserror + node" where
  "mkdirs [] t = Inr t"
| "mkdirs (k # ks) (File m c) = Inl NotADirectory"
| "mkdirs (k # ks) (Dir m es) =
     (case mkdirs ks (case map_of es k of None \<Rightarrow> Dir 493 [] | Some c \<Rightarrow> c) of
        Inl e \<Rightarrow> Inl e
      | Inr c' \<Rightarrow> Inr (Dir m (AList.update k c' es)))"

definition os_makedirs :: "path \<Rightarrow> world \<Rightarrow> unit result" where
  "os_makedirs p w0 =
     (let (f, w) = take_fault (log (EvMakedirs p) w0) in
      case f of
        Some e \<Rightarrow> (Inl e, w)
      | None \<Rightarrow>
          if p = [] then (Inl NotFound, w)
          else if lookup w p \<noteq> None then (Inl FileExists, w)
          else (case mkdirs (resolve w p) (root w) of
                  Inl e \<Rightarrow> (Inl e, w)
                | Inr t \<Rightarrow> (Inr (), w\<lparr>root := t\<rparr>)))"

text \<open>
  \<open>os.open\<close> of a directory (or file) for reading, \<open>os.scandir\<close> of an open directory
  and \<open>os.close\<close>; a descriptor is written as the path it was opened on.
\<close>

definition os_open :: "path \<Rightarrow> world \<Rightarrow> unit result" where
  "os_open p w0 =
     (let (f, w) = take_fault (log (EvOpen p) w0) in
      case f of
        Some e \<Rightarrow> (Inl e, w)
      | None \<Rightarrow> (case lookup w p of None \<Rightarrow> (Inl NotFound, w) | Some n \<Rightarrow> (Inr (), w)))"

definition os_scandir :: "path \<Rightarrow> world \<Rightarrow> name list result" where
  "os_scandir p w0 =
     (let (f, w) = take_fault (log (EvScandir p) w0) in
      case f of
        Some e \<Rightarrow> (Inl e, w)
      | None \<Rightarrow>
          (case lookup w p of
             None \<Rightarrow> (Inl NotFound, w)
           | Some (File m c) \<Rightarrow> (Inl NotADirectory, w)
           | Some (Dir m es) \<Rightarrow> (Inr (map fst es), w)))"

definition os_close :: "path \<Rightarrow> world \<Rightarrow> unit result" where
  "os_close p w0 =
     (let (f, w) = take_fault (log (EvClose p) w0) in
      case f of
        Some e \<Rightarrow> (Inl e, w)
      | None \<Rightarrow> (Inr (), w))"

definition time_sleep :: "world \<Rightarrow> world" where
  "time_sleep w = log EvSleep w"

subsection \<open>\<open>shutil.rmtree\<close>\<close>

text \<open>
  What a Python call raises is an \<open>OSError\<close> or, for a call with a missing or ill-typed
  argument, a \<open>TypeError\<close>; an \<open>except OSError\<close> clause catches the first kind only.
  An error handler receives the function that failed, the path it failed on and the
  exception (\<open>exc_info\<close>).
\<close>

type_synonym 'a pyresult = "(error + 'a) \<times> world"
type_synonym func = "path \<Rightarrow> world \<Rightarrow> unit pyresult"
type_synonym handler = "func \<Rightarrow> path \<Rightarrow> error \<Rightarrow> world \<Rightarrow> unit pyresult"

text \<open>
  \<open>func(path)\<close> for a library function that takes the path as its only required
  argument: the call is made and its value dropped.
\<close>

definition as_func :: "(path \<Rightarrow> world \<Rightarrow> 'a result) \<Rightarrow> func" where
  "as_func f p w =
     (case f p w of (Inl e, w') \<Rightarrow> (Inl (OSError e), w') | (Inr x, w') \<Rightarrow> (Inr (), w'))"

text \<open>
  \<open>func(path)\<close> for \<open>os.open\<close>, whose \<open>flags\<close> argument is required, and for
  \<open>os.close\<close>, which takes a descriptor and not a string: the interpreter raises
  \<open>TypeError\<close> before any system call is made.
\<close>

definition os_open_func :: func where
  "os_open_func p w = (Inl TypeError, w)"

definition os_close_func :: func where
  "os_close_func p w = (Inl TypeError, w)"

definition is_dir_mode :: "oserror + node \<Rightarrow> bool" where
  "is_dir_mode r = (case r of Inr (Dir m es) \<Rightarrow> True | _ \<Rightarrow> False)"

text \<open>\<open>try: call except OSError: onerror(func, path, sys.exc_info())\<close>.\<close>

definition guarded :: "handler \<Rightarrow> func \<Rightarrow> path \<Rightarrow> 'a result \<Rightarrow> unit pyresult" where
  "guarded onerror func p r =
     (case r of
        (Inl e, w) \<Rightarrow> onerror func p (OSError e) w
      | (Inr x, w) \<Rightarrow> (Inr (), w))"

text \<open>
  The walk without directory descriptors, as Python 2.7 has it: list the directory,
  remove each entry (a directory by a recursive walk, anything else by \<open>os.remove\<close>),
  then remove the directory itself; each failing call is handed to \<open>onerror\<close>, and a
  failing \<open>os.listdir\<close> leaves no names to walk. A failing \<open>os.lstat\<close> gives the mode
  0, which is not that of a directory. The recursion follows the tree as it stands when
  the walk starts; the walk itself is the only writer and removes an entry only when it
  visits it. There are no symbolic links, so the tests for one are left out. Python 3
  without directory descriptors (\<open>_rmtree_unsafe\<close>) walks the same way, reading the
  names and kinds of the entries with \<open>os.scandir\<close>; like here, every function it hands
  to the handler (\<open>os.scandir\<close>, \<open>os.unlink\<close>, \<open>os.rmdir\<close>) takes the path alone.
\<close>

definition rmtree_rmdir :: "handler \<Rightarrow> path \<Rightarrow> unit pyresult \<Rightarrow> unit pyresult" where
  "rmtree_rmdir onerror p r =
     (case r of
        (Inl e, w) \<Rightarrow> (Inl e, w)
      | (Inr u, w) \<Rightarrow> guarded onerror (as_func os_rmdir) p (os_rmdir p w))"

fun rmtree_walk :: "handler \<Rightarrow> path \<Rightarrow> node \<Rightarrow> world \<Rightarrow> unit pyresult"
  and rmtree_names :: "handler \<Rightarrow> path \<Rightarrow> (name \<times> node) list \<Rightarrow> world \<Rightarrow> unit pyresult"
where
  "rmtree_walk onerror p (File m c) w =
     (case os_listdir p w of
        (Inl e, w1) \<Rightarrow> rmtree_rmdir onerror p (onerror (as_func os_listdir) p (OSError e) w1)
      | (Inr names, w1) \<Rightarrow> rmtree_rmdir onerror p (Inr (), w1))"
| "rmtree_walk onerror p (Dir m es) w =
     (case os_listdir p w of
        (Inl e, w1) \<Rightarrow> rmtree_rmdir onerror p (onerror (as_func os_listdir) p (OSError e) w1)
      | (Inr names, w1) \<Rightarrow> rmtree_rmdir onerror p (rmtree_names onerror p es w1))"
| "rmtree_names onerror p [] w = (Inr (), w)"
| "rmtree_names onerror p ((name, child) # es) w =
     (let fullname = join2 p name;
          (st, w1) = os_lstat fullname w;
          r = (if is_dir_mode st then rmtree_walk onerror fullname child w1
               else guarded onerror (as_func os_unlink) fullname (os_unlink fullname w1))
      in case r of
           (Inl e, w3) \<Rightarrow> (Inl e, w3)
         | (Inr u, w3) \<Rightarrow> rmtree_names onerror p es w3)"

text \<open>
  The walk with directory descriptors (\<open>_rmtree_safe_fd\<close> of Python 3 on POSIX). A
  directory is opened, scanned through its descriptor, closed and removed. The part after
  the scan is the same for the top directory and for a subdirectory:
  \<^verbatim>\<open>
  try:
      _rmtree_safe_fd(fd, path, onerror)
      try: os.close(fd)
      except OSError: fd_closed = True; onerror(os.close, path, sys.exc_info())
      fd_closed = True
      try: os.rmdir(path)
      except OSError: onerror(os.rmdir, path, sys.exc_info())
  finally:
      if not fd_closed:
          try: os.close(fd)
          except OSError: onerror(os.close, path, sys.exc_info())
  \<close>
  \<open>fd_close_rmdir\<close> takes the result of the scan. When the scan raised, the
  \<open>finally\<close> clause closes the descriptor and the exception goes on, unless the handler
  called for a failing close raises itself.
\<close>

definition fd_close_rmdir :: "handler \<Rightarrow> path \<Rightarrow> unit pyresult \<Rightarrow> unit pyresult" where
  "fd_close_rmdir onerror p r =
     (case r of
        (Inl e, w) \<Rightarrow>
          (case guarded onerror os_close_func p (os_close p w) of
             (Inl e', w1) \<Rightarrow> (Inl e', w1)
           | (Inr u, w1) \<Rightarrow> (Inl e, w1))
      | (Inr u, w) \<Rightarrow>
          (case guarded onerror os_close_func p (os_close p w) of
             (Inl e', w1) \<Rightarrow> (Inl e', w1)
           | (Inr u', w1) \<Rightarrow> guarded onerror (as_func os_rmdir) p (os_rmdir p w1)))"

text \<open>
  An entry is a directory when the scan says so (the node the scan saw) and its
  \<open>lstat\<close> agrees; a failing \<open>lstat\<close> goes to the handler and the entry is skipped; a
  failing \<open>os.open\<close> goes to the handler; a failing scan goes to the handler and ends
  the walk of that directory. The test that the directory opened is the one read before
  (\<open>os.path.samestat\<close>) always passes, there being no symbolic links and no other
  writer.
\<close>

fun rmtree_safe_fd :: "handler \<Rightarrow> path \<Rightarrow> node \<Rightarrow> world \<Rightarrow> unit pyresult"
  and rmtree_entries :: "handler \<Rightarrow> path \<Rightarrow> (name \<times> node) list \<Rightarrow> world \<Rightarrow> unit pyresult"
where
  "rmtree_safe_fd onerror p (File m c) w =
     (case os_scandir p w of
        (Inl e, w1) \<Rightarrow> onerror (as_func os_scandir) p (OSError e) w1
      | (Inr names, w1) \<Rightarrow> (Inr (), w1))"
| "rmtree_safe_fd onerror p (Dir m es) w =
     (case os_scandir p w of
        (Inl e, w1) \<Rightarrow> onerror (as_func os_scandir) p (OSError e) w1
      | (Inr names, w1) \<Rightarrow> rmtree_entries onerror p es w1)"
| "rmtree_entries onerror p [] w = (Inr (), w)"
| "rmtree_entries onerror p ((name, File m c) # es) w =
     (let fullname = join2 p name;
          r = guarded onerror (as_func os_unlink) fullname (os_unlink fullname w)
      in case r of
           (Inl e, w3) \<Rightarrow> (Inl e, w3)
         | (Inr u, w3) \<Rightarrow> rmtree_entries onerror p es w3)"
| "rmtree_entries onerror p ((name, Dir m cs) # es) w =
     (let fullname = join2 p name;
          r = (case os_lstat fullname w of
                 (Inl e, w1) \<Rightarrow> onerror (as_func os_lstat) fullname (OSError e) w1
               | (Inr orig_st, w1) \<Rightarrow>
                   if is_dir_mode (Inr orig_st) then
                     (case os_open fullname w1 of
                        (Inl e, w2) \<Rightarrow> onerror os_open_func fullname (OSError e) w2
                      | (Inr u, w2) \<Rightarrow>
                          fd_close_rmdir onerror fullname
                            (rmtree_safe_fd onerror fullname (Dir m cs) w2))
                   else guarded onerror (as_func os_unlink) fullname (os_unlink fullname w1))
      in case r of
           (Inl e, w3) \<Rightarrow> (Inl e, w3)
         | (Inr u, w3) \<Rightarrow> rmtree_entries onerror p es w3)"

text \<open>
  \<open>shutil.rmtree(path, ignore_errors, onerror)\<close>. With directory descriptors the top
  directory is read by \<open>os.lstat\<close> and opened first, and a failure of either goes to the
  handler and ends the call.
\<close>

definition shutil_rmtree :: "path \<Rightarrow> bool \<Rightarrow> handler option \<Rightarrow> world \<Rightarrow> unit pyresult" where
  "shutil_rmtree p ignore_errors onerror w =
     (let h = (if ignore_errors then (\<lambda>func pth exc_info w'. (Inr (), w'))
               else case onerror of
                      None \<Rightarrow> (\<lambda>func pth exc_info w'. (Inl exc_info, w'))
                    | Some f \<Rightarrow> f)
      in if use_fd_functions w then
           (case os_lstat p w of
              (Inl e, w1) \<Rightarrow> h (as_func os_lstat) p (OSError e) w1
            | (Inr orig_st, w1) \<Rightarrow>
                (case os_open p w1 of
                   (Inl e, w2) \<Rightarrow> h os_open_func p (OSError e) w2
                 | (Inr u, w2) \<Rightarrow> fd_close_rmdir h p (rmtree_safe_fd h p orig_st w2)))
         else
           (case lookup w p of
              None \<Rightarrow> rmtree_walk h p (Dir 0 []) w
            | Some nd \<Rightarrow> rmtree_walk h p nd w))"

subsection \<open>The file lock\<close>

text \<open>
  Modelled from the spec: the class \<open>Lock\<close> of \<open>nuitka.utils.ThreadedExecutor\<close>, a
  mutual-exclusion primitive. \<open>acquire\<close> on a free lock takes it; \<open>acquire\<close> on a held
  lock waits for a release, which in a single thread of control never comes;
  \<open>release\<close> frees the lock.
\<close>

datatype ('e, 'a) outcome = Returned 'a | Raised 'e | Blocked

definition acquire :: "world \<Rightarrow> world option" where
  "acquire w = (if file_lock w = Some True then None else Some (w\<lparr>file_lock := Some True\<rparr>))"

definition release :: "world \<Rightarrow> world" where
  "release w = w\<lparr>file_lock := Some False\<rparr>"

text \<open>
  \<open>_with_file_Lock\<close> is a generator used as a context manager: the code before \<open>yield\<close>
  runs on entry, the body of the \<open>with\<close> statement runs at the \<open>yield\<close>, and the code
  after \<open>yield\<close> runs when the body returns. An exception of the body is raised inside
  the generator at the \<open>yield\<close>, where no \<open>try\<close> encloses it: it leaves the generator
  and the \<open>with\<close> statement, and the code after \<open>yield\<close> does not run.
\<close>

definition with_file_Lock ::
  "(world \<Rightarrow> ('e + 'a) \<times> world) \<Rightarrow> world \<Rightarrow> ('e, 'a) outcome \<times> world" where
  "with_file_Lock body w =
     (let w1 = (if file_lock w = None then w\<lparr>file_lock := Some False\<rparr> else w) in
      case acquire w1 of
        None \<Rightarrow> (Blocked, w1)
      | Some w2 \<Rightarrow>
          (case body w2 of
             (Inl e, w3) \<Rightarrow> (Raised e, w3)
           | (Inr v, w3) \<Rightarrow> (Returned v, if file_lock w3 \<noteq> None then release w3 else w3)))"

subsection \<open>The functions of the module\<close>

definition makePath :: "path \<Rightarrow> world \<Rightarrow> (oserror, unit) outcome \<times> world" where
  "makePath p =
     with_file_Lock (\<lambda>w. if \<not> os_path_isdir p w then os_makedirs p w else (Inr (), w))"

definition listDir_pairs :: "path \<Rightarrow> name list \<Rightarrow> (path \<times> name) list" where
  "listDir_pairs p names = sort (map (\<lambda>filename. (join2 p filename, filename)) names)"

definition listDir :: "path \<Rightarrow> world \<Rightarrow> (path \<times> name) list result" where
  "listDir p w =
     (case os_listdir p w of
        (Inl e, w') \<Rightarrow> (Inl e, w')
      | (Inr names, w') \<Rightarrow> (Inr (listDir_pairs p names), w'))"

definition deleteFile :: "path \<Rightarrow> bool \<Rightarrow> world \<Rightarrow> (oserror, unit) outcome \<times> world" where
  "deleteFile p must_exist =
     with_file_Lock (\<lambda>w. if must_exist \<or> os_path_isfile p w then os_unlink p w else (Inr (), w))"

text \<open>
  The handler \<open>onError\<close> of \<open>removeDirectory\<close>: \<open>func(path)\<close> in a \<open>try\<close> whose
  \<open>except OSError\<close> sleeps, followed by \<open>func(path)\<close>. An exception of the first call
  that is not an \<open>OSError\<close> leaves the handler at once.
\<close>

definition onError :: handler where
  "onError func p exc_info w =
     (case func p w of
        (Inl (OSError e), w1) \<Rightarrow> func p (time_sleep w1)
      | (Inl TypeError, w1) \<Rightarrow> (Inl TypeError, w1)
      | (Inr u, w1) \<Rightarrow> func p w1)"

text \<open>
  \<open>removeDirectory\<close>: the \<open>except OSError\<close> around the first pass catches an
  \<open>OSError\<close>; any other exception leaves the function whatever \<open>ignore_errors\<close> is.
\<close>

definition removeDirectory :: "path \<Rightarrow> bool \<Rightarrow> world \<Rightarrow> (error, unit) outcome \<times> world" where
  "removeDirectory p ignore_errors =
     with_file_Lock (\<lambda>w.
       if os_path_exists p w then
         (case shutil_rmtree p False (Some onError) w of
            (Inl (OSError e), w1) \<Rightarrow>
              if ignore_errors then shutil_rmtree p ignore_errors None w1
              else (Inl (OSError e), w1)
          | (Inl TypeError, w1) \<Rightarrow> (Inl TypeError, w1)
          | (Inr u, w1) \<Rightarrow> (Inr (), w1))
       else (Inr (), w))"


subsection \<open>Relations between worlds that every step keeps\<close>






subsection \<open>A small file system for concrete runs\<close>

text \<open>
  The directory \<open>/d\<close> holds the one file \<open>/d/f\<close>; the lock has not been created;
  \<open>example_world fs\<close> meets the faults \<open>fs\<close> and walks without directory descriptors,
  \<open>example_world_fd fs\<close> with them.
\<close>

definition example_tree :: node where
  "example_tree = Dir 493 [(''d'', Dir 493 [(''f'', File 420 ''x'')])]"

definition example_world :: "oserror option list \<Rightarrow> world" where
  "example_world fs =
     \<lparr>root = example_tree, cwd = ''/'', faults = fs, trace = [], file_lock = None,
      use_fd_functions = False\<rparr>"

definition example_world_fd :: "oserror option list \<Rightarrow> world" where
  "example_world_fd fs = (example_world fs)\<lparr>use_fd_functions := True\<rparr>"



text \<open>A directory whose entries are stored out of order.\<close>

definition unsorted_world :: world where
  "unsorted_world =
     \<lparr>root = Dir 493 [(''b'', File 420 []), (''a'', File 420 []), (''B'', Dir 493 [])],
      cwd = ''/'', faults = [], trace = [], file_lock = None, use_fd_functions = False\<rparr>"

section \<open>Properties\<close>

subsection \<open>splitPath\<close>

text \<open>
  Claim C10. For every input path, splitPath returns at most two components, namely the
  head and the tail of one \<open>os.path.split\<close> with the empty ones removed; it does not
  decompose the path into all its segments: a path with two separators such as
  \<open>a/b/c\<close> gives the two components \<open>a/b\<close> and \<open>c\<close>.
\<close>

theorem splitPath_at_most_two:
  "length (splitPath p) \<le> 2
   \<and> set (splitPath p) = {fst (posix_split p), snd (posix_split p)} - {[]}
   \<and> splitPath ''a/b/c'' = [''a/b'', ''c'']"
  by (auto simp: splitPath_def posix_split_def sep_def rstrip_sep_def)

subsection \<open>Normalisation of POSIX paths\<close>

lemma split_on_not_Nil [simp]: "split_on c xs \<noteq> []"
  by (induction xs) (auto split: list.splits)

lemma split_on_append_sep: "split_on c (a @ c # b) = split_on c a @ split_on c b"
  by (induction a) (auto split: list.splits)

lemma split_on_snoc_sep: "split_on c (a @ [c]) = split_on c a @ [[]]"
  using split_on_append_sep [of c a "[]"] by simp

lemma filter_split_replicate:
  "filter (\<lambda>s. s \<noteq> []) (split_on c (a @ replicate k c)) = filter (\<lambda>s. s \<noteq> []) (split_on c a)"
proof (induction k)
  case 0
  then show ?case by simp
next
  case (Suc k)
  have "a @ replicate (Suc k) c = (a @ replicate k c) @ [c]"
    by (simp add: replicate_append_same)
  then show ?case using Suc by (simp only: split_on_snoc_sep) simp
qed

lemma foldl_norm_step_filter:
  "foldl (norm_step n) acc (filter (\<lambda>s. s \<noteq> []) xs) = foldl (norm_step n) acc xs"
  by (induction xs arbitrary: acc) (auto simp: norm_step_def)

lemma initial_slashes_takeWhile:
  "initial_slashes p =
     (let n = length (takeWhile (\<lambda>c. c = sep) p) in if n = 0 then 0 else if n = 2 then 2 else 1)"
proof (cases p)
  case Nil
  then show ?thesis by (simp add: initial_slashes_def)
next
  case (Cons a q)
  note p = this
  show ?thesis
  proof (cases q)
    case Nil
    then show ?thesis using p by (simp add: initial_slashes_def)
  next
    case (Cons b r)
    then show ?thesis using p by (cases r) (auto simp: initial_slashes_def)
  qed
qed

lemma initial_slashes_append:
  assumes "\<exists>c\<in>set p. c \<noteq> sep"
  shows "initial_slashes (p @ x) = initial_slashes p"
proof -
  from assms obtain c where "c \<in> set p" "\<not> (c = sep)" by blast
  then have "takeWhile (\<lambda>c. c = sep) (p @ x) = takeWhile (\<lambda>c. c = sep) p"
    by (rule takeWhile_append1)
  then show ?thesis by (simp add: initial_slashes_takeWhile)
qed

lemma normpath_key:
  assumes "p \<noteq> []" "q \<noteq> []" "initial_slashes p = initial_slashes q"
    and "filter (\<lambda>s. s \<noteq> []) (split_on sep p) = filter (\<lambda>s. s \<noteq> []) (split_on sep q)"
  shows "posix_normpath p = posix_normpath q"
proof -
  have "foldl (norm_step n) [] (split_on sep p) = foldl (norm_step n) [] (split_on sep q)" for n
    using assms(4) foldl_norm_step_filter [of n "[]" "split_on sep p"]
      foldl_norm_step_filter [of n "[]" "split_on sep q"] by simp
  then show ?thesis using assms(1-3) by (simp add: posix_normpath_def)
qed

lemma normpath_trailing:
  assumes "\<exists>c\<in>set p. c \<noteq> sep"
  shows "posix_normpath (p @ replicate k sep) = posix_normpath p"
proof (rule normpath_key)
  show "p @ replicate k sep \<noteq> []" using assms by auto
  show "p \<noteq> []" using assms by auto
  show "initial_slashes (p @ replicate k sep) = initial_slashes p"
    using assms by (rule initial_slashes_append)
  show "filter (\<lambda>s. s \<noteq> []) (split_on sep (p @ replicate k sep))
      = filter (\<lambda>s. s \<noteq> []) (split_on sep p)"
    by (rule filter_split_replicate)
qed

lemma normpath_collapse:
  assumes "\<exists>c\<in>set a. c \<noteq> sep"
  shows "posix_normpath (a @ replicate (Suc k) sep @ t) = posix_normpath (a @ sep # t)"
proof (rule normpath_key)
  show "a @ replicate (Suc k) sep @ t \<noteq> []" by simp
  show "a @ sep # t \<noteq> []" by simp
  show "initial_slashes (a @ replicate (Suc k) sep @ t) = initial_slashes (a @ sep # t)"
    using assms by (simp only: initial_slashes_append)
  have e: "a @ replicate (Suc k) sep @ t = (a @ replicate k sep) @ sep # t"
    by (simp add: replicate_append_same)
  show "filter (\<lambda>s. s \<noteq> []) (split_on sep (a @ replicate (Suc k) sep @ t))
      = filter (\<lambda>s. s \<noteq> []) (split_on sep (a @ sep # t))"
    by (simp only: e split_on_append_sep filter_append filter_split_replicate)
qed

lemma takeWhile_sep_replicate:
  "takeWhile (\<lambda>c. c = sep) xs = replicate (length (takeWhile (\<lambda>c. c = sep) xs)) sep"
proof -
  have "\<forall>y\<in>set (takeWhile (\<lambda>c. c = sep) xs). y = sep"
    by (auto dest: set_takeWhileD)
  then show ?thesis by (simp add: replicate_length_same)
qed

text \<open>The shape of a path around its last separator.\<close>

lemma split_shape:
  fixes p :: path
  defines "h \<equiv> rev (dropWhile (\<lambda>c. c \<noteq> sep) (rev p))"
    and "t \<equiv> rev (takeWhile (\<lambda>c. c \<noteq> sep) (rev p))"
  shows "p = h @ t" and "sep \<notin> set t" and "h \<noteq> [] \<Longrightarrow> last h = sep"
proof -
  have "rev (dropWhile (\<lambda>c. c \<noteq> sep) (rev p)) @ rev (takeWhile (\<lambda>c. c \<noteq> sep) (rev p))
      = rev (takeWhile (\<lambda>c. c \<noteq> sep) (rev p) @ dropWhile (\<lambda>c. c \<noteq> sep) (rev p))"
    by (simp only: rev_append)
  also have "\<dots> = rev (rev p)" by (simp only: takeWhile_dropWhile_id)
  finally show "p = h @ t" by (simp add: h_def t_def)
  show "sep \<notin> set t" by (auto simp: t_def dest: set_takeWhileD)
  show "last h = sep" if "h \<noteq> []"
  proof -
    from that have ne: "dropWhile (\<lambda>c. c \<noteq> sep) (rev p) \<noteq> []" by (simp add: h_def)
    then have "\<not> (hd (dropWhile (\<lambda>c. c \<noteq> sep) (rev p)) \<noteq> sep)" by (rule hd_dropWhile)
    then show ?thesis using ne by (simp add: h_def last_rev)
  qed
qed

lemma rstrip_shape:
  assumes "h \<noteq> replicate (length h) sep"
  shows "\<exists>k. h = rstrip_sep h @ replicate k sep" and "\<exists>c\<in>set (rstrip_sep h). c \<noteq> sep"
proof -
  let ?k = "length (takeWhile (\<lambda>c. c = sep) (rev h))"
  have "rev h = takeWhile (\<lambda>c. c = sep) (rev h) @ dropWhile (\<lambda>c. c = sep) (rev h)" by simp
  then have "rev h = replicate ?k sep @ dropWhile (\<lambda>c. c = sep) (rev h)"
    using takeWhile_sep_replicate [of "rev h"] by simp
  then have "rev (rev h) = rev (replicate ?k sep @ dropWhile (\<lambda>c. c = sep) (rev h))"
    by (rule arg_cong)
  then have eq: "h = rstrip_sep h @ replicate ?k sep" by (simp add: rstrip_sep_def)
  then show "\<exists>k. h = rstrip_sep h @ replicate k sep" ..
  show "\<exists>c\<in>set (rstrip_sep h). c \<noteq> sep"
  proof (rule ccontr)
    assume "\<not> (\<exists>c\<in>set (rstrip_sep h). c \<noteq> sep)"
    then have "\<forall>c\<in>set (rstrip_sep h). c = sep" by blast
    then have "\<forall>c\<in>set h. c = sep" using eq
      by (metis Un_iff in_set_replicate set_append)
    then have "replicate (length h) sep = h" by (rule replicate_length_same)
    with assms show False by simp
  qed
qed

text \<open>
  Claim C7 (amended), for the POSIX flavour of \<open>os.path\<close>. For every non-empty path,
  splitPath returns no empty component, and \<open>posixpath.join\<close> of the components is a
  path with the same \<open>posixpath.normpath\<close> as the input. For the empty path splitPath
  returns no component at all, and \<open>os.path.join\<close> without an argument raises
  \<open>TypeError\<close>.
\<close>

theorem splitPath_join_normalizes:
  assumes "p \<noteq> []"
  shows "[] \<notin> set (splitPath p)
         \<and> (\<exists>q. posix_join (splitPath p) = Inr q \<and> posix_normpath q = posix_normpath p)"
proof -
  define h where "h = rev (dropWhile (\<lambda>c. c \<noteq> sep) (rev p))"
  define t where "t = rev (takeWhile (\<lambda>c. c \<noteq> sep) (rev p))"
  have p: "p = h @ t" and t: "sep \<notin> set t" and h: "h \<noteq> [] \<Longrightarrow> last h = sep"
    unfolding h_def t_def by (rule split_shape)+
  have ne: "[] \<notin> set (splitPath p)" by (simp add: splitPath_def)
  have hdt: "t \<noteq> [] \<Longrightarrow> hd t \<noteq> sep" using t by (cases t) auto
  have spg: "posix_split p
      = (if h \<noteq> [] \<and> h \<noteq> replicate (length h) sep then rstrip_sep h else h, t)"
    by (simp add: posix_split_def h_def t_def Let_def)
  show ?thesis
  proof (cases "h \<noteq> [] \<and> h \<noteq> replicate (length h) sep")
    case False
    then have sp: "posix_split p = (h, t)"
      by (simp only: spg if_False)
    have "posix_join (splitPath p) = Inr p"
    proof (cases "h = []")
      case True
      then show ?thesis using sp p assms by (simp add: splitPath_def)
    next
      case hne: False
      then show ?thesis using sp p h hdt
        by (cases "t = []") (simp_all add: splitPath_def join_step_def)
    qed
    then show ?thesis using ne by simp
  next
    case True
    then have sp: "posix_split p = (rstrip_sep h, t)"
      by (simp only: spg if_True not_False_eq_True simp_thms)
    from True obtain k where k: "h = rstrip_sep h @ replicate k sep"
      using rstrip_shape(1) by blast
    from True have c: "\<exists>c\<in>set (rstrip_sep h). c \<noteq> sep" using rstrip_shape(2) by blast
    let ?a = "rstrip_sep h"
    have ane: "?a \<noteq> []" using c by auto
    have lasta: "last ?a \<noteq> sep"
    proof -
      have "hd (dropWhile (\<lambda>c. c = sep) (rev h)) \<noteq> sep"
        using ane hd_dropWhile [of "\<lambda>c. c = sep" "rev h"] by (simp add: rstrip_sep_def)
      then show ?thesis using ane by (simp add: rstrip_sep_def last_rev)
    qed
    have kpos: "k \<noteq> 0"
    proof
      assume "k = 0"
      then have "h = ?a" using k by simp
      then show False using h lasta ane by simp
    qed
    then obtain j where j: "k = Suc j" by (cases k) auto
    show ?thesis
    proof (cases "t = []")
      case True
      then have "posix_join (splitPath p) = Inr ?a"
        using sp ane by (simp add: splitPath_def)
      moreover have "posix_normpath ?a = posix_normpath p"
      proof -
        have "p = ?a @ replicate k sep" using p True k by simp
        then have "posix_normpath p = posix_normpath (?a @ replicate k sep)" by simp
        also have "\<dots> = posix_normpath ?a" using c by (rule normpath_trailing)
        finally show ?thesis by simp
      qed
      ultimately show ?thesis using ne by simp
    next
      case False
      then have "posix_join (splitPath p) = Inr (?a @ sep # t)"
        using sp ane lasta hdt by (simp add: splitPath_def join_step_def)
      moreover have "posix_normpath (?a @ sep # t) = posix_normpath p"
      proof -
        have "p = ?a @ replicate (Suc j) sep @ t" using p k j by simp
        then have "posix_normpath p = posix_normpath (?a @ replicate (Suc j) sep @ t)" by simp
        also have "\<dots> = posix_normpath (?a @ sep # t)" using c by (rule normpath_collapse)
        finally show ?thesis by simp
      qed
      ultimately show ?thesis using ne by simp
    qed
  qed
qed

theorem splitPath_join_normalizes_witness:
  "''a//b/'' \<noteq> [] \<and> [] \<notin> set (splitPath ''a//b/'')
   \<and> (\<exists>q. posix_join (splitPath ''a//b/'') = Inr q \<and> posix_normpath q = posix_normpath ''a//b/'')"
  using splitPath_join_normalizes [of "''a//b/''"] by simp

text \<open>
  The empty path has no component to join: the claim as stated for every path fails there.
\<close>

theorem splitPath_join_empty_counterexample:
  "splitPath '''' = [] \<and> posix_join (splitPath '''') = Inl TypeError
   \<and> \<not> (\<exists>q. posix_join (splitPath '''') = Inr q \<and> posix_normpath q = posix_normpath '''')"
  by (simp add: splitPath_def posix_split_def)

subsection \<open>Relations kept by the system calls\<close>





















subsection \<open>Relations kept by the walks\<close>






subsection \<open>A walk that ignores errors\<close>







subsection \<open>What the system calls leave unchanged\<close>

lemma take_fault_lock [simp]: "file_lock (snd (take_fault w)) = file_lock w"
  by (simp add: take_fault_def split: list.splits)

lemma take_fault_trace [simp]: "trace (snd (take_fault w)) = trace w"
  by (simp add: take_fault_def split: list.splits)

lemma take_fault_root [simp]: "root (snd (take_fault w)) = root w"
  by (simp add: take_fault_def split: list.splits)

lemma take_fault_cwd [simp]: "cwd (snd (take_fault w)) = cwd w"
  by (simp add: take_fault_def split: list.splits)

lemma lookup_lock [simp]: "lookup (w\<lparr>file_lock := l\<rparr>) p = lookup w p"
  by (simp add: lookup_def resolve_def)

lemma os_path_exists_lock [simp]: "os_path_exists p (w\<lparr>file_lock := l\<rparr>) = os_path_exists p w"
  by (simp add: os_path_exists_def)

lemma os_path_isfile_lock [simp]: "os_path_isfile p (w\<lparr>file_lock := l\<rparr>) = os_path_isfile p w"
  by (simp add: os_path_isfile_def)

subsection \<open>The first call of a removal\<close>








subsection \<open>The lock and the functions under it\<close>

lemma with_file_Lock_free:
  assumes "file_lock w \<noteq> Some True"
  shows "with_file_Lock body w =
     (case body (w\<lparr>file_lock := Some True\<rparr>) of
        (Inl e, w3) \<Rightarrow> (Raised e, w3)
      | (Inr v, w3) \<Rightarrow> (Returned v, if file_lock w3 \<noteq> None then release w3 else w3))"
  using assms by (simp add: with_file_Lock_def acquire_def)

lemma with_file_Lock_held:
  "file_lock w = Some True \<Longrightarrow> with_file_Lock body w = (Blocked, w)"
  by (simp add: with_file_Lock_def acquire_def)

lemma release_locked [simp]: "release (w\<lparr>file_lock := l\<rparr>) = release w"
  by (simp add: release_def)

text \<open>
  Claim C6. For every path that does not exist, removeDirectory, called with the lock
  free, returns successfully under both settings of \<open>ignore_errors\<close>, and the world it
  leaves differs from the one it found only in the lock, created and released: nothing is
  added to the trace, so no removal was attempted, and the tree is the same.
\<close>

theorem removeDirectory_missing_path:
  assumes "\<not> os_path_exists p w" and "file_lock w \<noteq> Some True"
  shows "removeDirectory p ignore_errors w = (Returned (), release w)
         \<and> trace (release w) = trace w \<and> root (release w) = root w"
  using assms by (auto simp: removeDirectory_def with_file_Lock_free release_def)

theorem removeDirectory_missing_path_witness:
  "\<not> os_path_exists ''/nope'' (example_world []) \<and> file_lock (example_world []) \<noteq> Some True
   \<and> removeDirectory ''/nope'' True (example_world []) = (Returned (), release (example_world []))
   \<and> removeDirectory ''/nope'' False (example_world []) = (Returned (), release (example_world []))"
proof -
  have a: "\<not> os_path_exists ''/nope'' (example_world [])" by code_simp
  have b: "file_lock (example_world []) \<noteq> Some True" by (simp add: example_world_def)
  show ?thesis
    using a b removeDirectory_missing_path [OF a b, of True]
      removeDirectory_missing_path [OF a b, of False] by simp
qed








lemma onError_after_success:
  "func p w = (Inr u, w1) \<Longrightarrow> onError func p exc_info w = func p w1"
  by (simp add: onError_def)

lemma onError_after_failure:
  "func p w = (Inl (OSError e), w1) \<Longrightarrow> onError func p exc_info w = func p (time_sleep w1)"
  by (simp add: onError_def)

text \<open>
  Claim C1, at an entry whose first removal fails and whose immediate retry succeeds. The
  handler receives \<open>/d/f\<close> after the failure; its first \<open>os.remove\<close> succeeds, and
  it calls \<open>os.remove\<close> on the same path again, without sleeping; the file is gone and
  the call raises \<open>NotFound\<close>, which leaves the handler. In removeDirectory the same
  run shows three attempts on \<open>/d/f\<close> and the error reaches the caller, although the
  entry was removed; so it is with either walk of \<open>shutil.rmtree\<close>.
\<close>

theorem onError_retries_after_successful_retry:
  "onError (as_func os_unlink) ''/d/f'' (OSError TransientLock) (example_world [])
     = (Inl (OSError NotFound),
        \<lparr>root = Dir 493 [(''d'', Dir 493 [])], cwd = ''/'', faults = [],
         trace = [EvUnlink ''/d/f'', EvUnlink ''/d/f''], file_lock = None,
         use_fd_functions = False\<rparr>)
   \<and> removeDirectory ''/d'' False (example_world [None, None, Some TransientLock])
     = (Raised (OSError NotFound),
        \<lparr>root = Dir 493 [(''d'', Dir 493 [])], cwd = ''/'', faults = [],
         trace = [EvListdir ''/d'', EvLstat ''/d/f'', EvUnlink ''/d/f'', EvUnlink ''/d/f'',
                  EvUnlink ''/d/f''],
         file_lock = Some True, use_fd_functions = False\<rparr>)
   \<and> removeDirectory ''/d'' False (example_world_fd [None, None, None, Some TransientLock])
     = (Raised (OSError NotFound),
        \<lparr>root = Dir 493 [(''d'', Dir 493 [])], cwd = ''/'', faults = [],
         trace = [EvLstat ''/d'', EvOpen ''/d'', EvScandir ''/d'', EvUnlink ''/d/f'',
                  EvUnlink ''/d/f'', EvUnlink ''/d/f'', EvClose ''/d''],
         file_lock = Some True, use_fd_functions = True\<rparr>)"
  by code_simp

text \<open>
  Claim C2, at deleteFile with \<open>must_exist\<close> true on a missing path. The call raises
  \<open>NotFound\<close> and the lock is still held afterwards; each lock-protected function called
  next waits for it and does not return. When the body returns normally (the last
  conjunct) the lock is released.
\<close>

theorem file_lock_stays_held_after_error:
  "deleteFile ''/missing'' True (example_world [])
     = (Raised NotFound,
        \<lparr>root = example_tree, cwd = ''/'', faults = [], trace = [EvUnlink ''/missing''],
         file_lock = Some True, use_fd_functions = False\<rparr>)
   \<and> fst (deleteFile ''/d/f'' False (snd (deleteFile ''/missing'' True (example_world []))))
     = Blocked
   \<and> fst (makePath ''/e'' (snd (deleteFile ''/missing'' True (example_world [])))) = Blocked
   \<and> fst (removeDirectory ''/d'' False (snd (deleteFile ''/missing'' True (example_world []))))
     = Blocked
   \<and> deleteFile ''/d/f'' True (example_world [])
     = (Returned (),
        \<lparr>root = Dir 493 [(''d'', Dir 493 [])], cwd = ''/'', faults = [],
         trace = [EvUnlink ''/d/f''], file_lock = Some False, use_fd_functions = False\<rparr>)"
  by code_simp

lemma os_unlink_trace: "trace (snd (os_unlink p w)) = trace w @ [EvUnlink p]"
  by (simp add: os_unlink_def log_def take_fault_def
      split: list.splits option.splits node.splits prod.splits)

lemma lookup_take_fault_log [simp]: "lookup (snd (take_fault (log ev w))) p = lookup w p"
  by (simp add: lookup_def resolve_def log_def take_fault_def split: list.splits)

lemma take_fault_log: "fst (take_fault (log ev w)) = fst (take_fault w)"
  by (simp add: log_def take_fault_def split: list.splits)

lemma os_unlink_missing:
  assumes "\<not> os_path_exists p w"
  shows "fst (os_unlink p w) = Inl (case fst (take_fault w) of None \<Rightarrow> NotFound | Some e \<Rightarrow> e)"
proof -
  obtain f w' where t: "take_fault (log (EvUnlink p) w) = (f, w')"
    by (cases "take_fault (log (EvUnlink p) w)")
  have "lookup w' p = None"
    using assms lookup_take_fault_log [of "EvUnlink p" w p] t by (simp add: os_path_exists_def)
  moreover have "fst (take_fault w) = f" using take_fault_log [of "EvUnlink p" w] t by simp
  ultimately show ?thesis using t by (simp add: os_unlink_def split: option.splits)
qed

text \<open>
  Claim C4. Called with the lock free, deleteFile attempts \<open>os.unlink\<close> on the path
  exactly when \<open>must_exist\<close> is true or the path is a regular file: the trace grows by
  that one call in this case and not at all otherwise, where the call returns having
  changed nothing but the lock. For a path that does not exist the call raises exactly
  when \<open>must_exist\<close> is true, and the error is \<open>NotFound\<close> unless the environment
  fails the call with another error first.
\<close>

theorem deleteFile_unlink_iff:
  assumes "file_lock w \<noteq> Some True"
  shows "trace (snd (deleteFile p must_exist w))
           = trace w @ (if must_exist \<or> os_path_isfile p w then [EvUnlink p] else [])
       \<and> (\<not> (must_exist \<or> os_path_isfile p w)
            \<longrightarrow> deleteFile p must_exist w = (Returned (), release w))
       \<and> (\<not> os_path_exists p w
            \<longrightarrow> ((\<exists>e. fst (deleteFile p must_exist w) = Raised e) \<longleftrightarrow> must_exist))
       \<and> (\<not> os_path_exists p w \<and> fst (take_fault w) = None
            \<longrightarrow> (fst (deleteFile p must_exist w) = Raised NotFound \<longleftrightarrow> must_exist))"
proof -
  let ?w = "w\<lparr>file_lock := Some True\<rparr>"
  obtain r w' where u: "os_unlink p ?w = (r, w')" by (cases "os_unlink p ?w")
  have tr: "trace w' = trace w @ [EvUnlink p]" using os_unlink_trace [of p ?w] u by simp
  have nofile: "\<not> os_path_exists p w \<Longrightarrow> \<not> os_path_isfile p w"
    by (simp add: os_path_exists_def os_path_isfile_def)
  have miss: "\<not> os_path_exists p w \<Longrightarrow>
      r = Inl (case fst (take_fault w) of None \<Rightarrow> NotFound | Some e \<Rightarrow> e)"
    using os_unlink_missing [of p ?w] u by (simp add: take_fault_def split: list.splits)
  have yes: "must_exist \<or> os_path_isfile p w \<Longrightarrow>
      deleteFile p must_exist w
        = (case r of Inl e \<Rightarrow> (Raised e, w')
           | Inr v \<Rightarrow> (Returned v, if file_lock w' \<noteq> None then release w' else w'))"
    using assms u by (auto simp: deleteFile_def with_file_Lock_free split: sum.splits)
  have no: "\<not> (must_exist \<or> os_path_isfile p w) \<Longrightarrow>
      deleteFile p must_exist w = (Returned (), release w)"
    using assms by (auto simp: deleteFile_def with_file_Lock_free release_def)
  have 1: "trace (snd (deleteFile p must_exist w))
           = trace w @ (if must_exist \<or> os_path_isfile p w then [EvUnlink p] else [])"
  proof (cases "must_exist \<or> os_path_isfile p w")
    case True
    then show ?thesis using yes [OF True] tr by (cases r) (auto simp: release_def)
  next
    case False
    then show ?thesis using no [OF False] by (simp add: release_def)
  qed
  have 3: "(\<exists>e. fst (deleteFile p must_exist w) = Raised e) \<longleftrightarrow> must_exist"
    if "\<not> os_path_exists p w"
  proof (cases must_exist)
    case True
    then show ?thesis using yes miss [OF that] by simp
  next
    case False
    then show ?thesis using no nofile [OF that] by simp
  qed
  have 4: "fst (deleteFile p must_exist w) = Raised NotFound \<longleftrightarrow> must_exist"
    if "\<not> os_path_exists p w" "fst (take_fault w) = None"
  proof (cases must_exist)
    case True
    then show ?thesis using yes miss [OF that(1)] that(2) by simp
  next
    case False
    then show ?thesis using no nofile [OF that(1)] by simp
  qed
  show ?thesis using 1 no 3 4 by blast
qed

theorem deleteFile_unlink_iff_witness:
  "file_lock (example_world []) \<noteq> Some True
   \<and> \<not> os_path_exists ''/missing'' (example_world [])
   \<and> fst (take_fault (example_world [])) = None
   \<and> fst (deleteFile ''/missing'' True (example_world [])) = Raised NotFound
   \<and> deleteFile ''/missing'' False (example_world []) = (Returned (), release (example_world []))
   \<and> trace (snd (deleteFile ''/d/f'' False (example_world []))) = [EvUnlink ''/d/f'']"
proof -
  have a: "file_lock (example_world []) \<noteq> Some True" by (simp add: example_world_def)
  have b: "\<not> os_path_exists ''/missing'' (example_world [])" by code_simp
  have c: "fst (take_fault (example_world [])) = None" by code_simp
  have d: "os_path_isfile ''/d/f'' (example_world [])" by code_simp
  have e: "\<not> os_path_isfile ''/missing'' (example_world [])" by code_simp
  have t: "trace (example_world []) = []" by (simp add: example_world_def)
  show ?thesis
    using a b c d e t deleteFile_unlink_iff [OF a, of "''/missing''" True]
      deleteFile_unlink_iff [OF a, of "''/missing''" False]
      deleteFile_unlink_iff [OF a, of "''/d/f''" False]
    by simp
qed

subsection \<open>The directory tree\<close>






subsection \<open>renameFile\<close>

lemma take_fault_log_frame:
  assumes "take_fault (log ev w) = (f, w')"
  shows "root w' = root w" "cwd w' = cwd w" "trace w' = trace w @ [ev]"
    "lookup w' p = lookup w p" "resolve w' p = resolve w p"
  using assms
  by (auto simp: take_fault_def log_def lookup_def resolve_def split: list.splits)


lemma os_stat_fail:
  assumes "os_stat s w = (Inl e, w1)"
  shows "root w1 = root w" "cwd w1 = cwd w" "trace w1 = trace w @ [EvStat s]"
proof -
  obtain f w' where t: "take_fault (log (EvStat s) w) = (f, w')"
    by (cases "take_fault (log (EvStat s) w)")
  note fr = take_fault_log_frame [OF t]
  from assms t have "w1 = w'"
    by (auto simp: os_stat_def split: option.splits)
  then show "root w1 = root w" "cwd w1 = cwd w" "trace w1 = trace w @ [EvStat s]"
    using fr by simp_all
qed






lemma mode_of_set_mode [simp]: "mode_of (set_mode m n) = m"
  by (cases n) simp_all






subsection \<open>listDir and areSamePaths\<close>

lemma sorted_map_fst: "sorted (xs :: ('a::linorder \<times> 'b::linorder) list) \<Longrightarrow> sorted (map fst xs)"
  by (induction xs) (auto simp: less_eq_prod_def)

lemma listDir_pairs_sorted: "sorted (listDir_pairs p names)"
  by (simp add: listDir_pairs_def)

lemma listDir_pairs_mset:
  "mset (listDir_pairs p names) = mset (map (\<lambda>filename. (join2 p filename, filename)) names)"
  by (simp add: listDir_pairs_def)

lemma listDir_pairs_perm:
  assumes "mset names = mset names'"
  shows "listDir_pairs p names = listDir_pairs p names'"
proof -
  have "mset (map (\<lambda>filename. (join2 p filename, filename)) names)
      = mset (map (\<lambda>filename. (join2 p filename, filename)) names')"
    using assms by (metis mset_map)
  then show ?thesis
    unfolding listDir_pairs_def
    by (intro properties_for_sort) simp_all
qed

lemma os_listdir_dir:
  assumes "lookup w p = Some (Dir m es)" and "fst (take_fault w) = None"
  shows "fst (os_listdir p w) = Inr (map fst es)"
proof -
  obtain f w' where t: "take_fault (log (EvListdir p) w) = (f, w')"
    by (cases "take_fault (log (EvListdir p) w)")
  have "f = None" using t assms(2) by (auto simp: take_fault_def log_def split: list.splits)
  moreover have "lookup w' p = Some (Dir m es)"
    using assms(1) t by (auto simp: take_fault_def log_def lookup_def resolve_def split: list.splits)
  ultimately show ?thesis using t by (simp add: os_listdir_def)
qed

text \<open>
  Claim C9. For every path that is a directory, when the environment does not fail the
  listing, listDir returns the pairs of full path and name of the entries of the
  directory, sorted ascending as pairs and hence by full path. The result does not depend
  on the order in which \<open>os.listdir\<close> gives the names, and a second call on a world with
  the same tree and working directory returns the same list.
\<close>

theorem listDir_sorted_deterministic:
  assumes "os_path_isdir p w" and "fst (take_fault w) = None"
  shows "\<exists>r. fst (listDir p w) = Inr r \<and> sorted r \<and> sorted (map fst r)
           \<and> (\<exists>m es. lookup w p = Some (Dir m es)
                 \<and> mset r = mset (map (\<lambda>filename. (join2 p filename, filename)) (map fst es))
                 \<and> (\<forall>names. mset names = mset (map fst es) \<longrightarrow> listDir_pairs p names = r))
           \<and> (\<forall>w2. root w2 = root w \<and> cwd w2 = cwd w \<and> fst (take_fault w2) = None
                 \<longrightarrow> fst (listDir p w2) = Inr r)"
proof -
  from assms(1) obtain m es where l: "lookup w p = Some (Dir m es)"
    by (auto simp: os_path_isdir_def split: option.splits node.splits)
  let ?r = "listDir_pairs p (map fst es)"
  have ld: "fst (listDir p v) = Inr ?r"
    if "lookup v p = Some (Dir m es)" "fst (take_fault v) = None" for v
    using os_listdir_dir [OF that]
    by (cases "os_listdir p v") (auto simp: listDir_def split: sum.splits)
  have 1: "fst (listDir p w) = Inr ?r" using ld [OF l assms(2)] .
  have 2: "sorted ?r" by (rule listDir_pairs_sorted)
  have 3: "sorted (map fst ?r)" using 2 by (rule sorted_map_fst)
  have 4: "mset ?r = mset (map (\<lambda>filename. (join2 p filename, filename)) (map fst es))"
    by (rule listDir_pairs_mset)
  have 5: "listDir_pairs p names = ?r" if "mset names = mset (map fst es)" for names
    using that by (rule listDir_pairs_perm)
  have 6: "fst (listDir p w2) = Inr ?r"
    if "root w2 = root w \<and> cwd w2 = cwd w \<and> fst (take_fault w2) = None" for w2
  proof -
    have "lookup w2 p = lookup w p" using that by (simp add: lookup_def resolve_def)
    then have "lookup w2 p = Some (Dir m es)" using l by simp
    then show ?thesis using ld that by simp
  qed
  show ?thesis using 1 2 3 4 5 6 l by blast
qed

theorem listDir_sorted_deterministic_witness:
  "os_path_isdir ''/'' unsorted_world \<and> fst (take_fault unsorted_world) = None
   \<and> fst (listDir ''/'' unsorted_world) = Inr [(''/B'', ''B''), (''/a'', ''a''), (''/b'', ''b'')]
   \<and> (\<exists>r. fst (listDir ''/'' unsorted_world) = Inr r \<and> sorted r \<and> sorted (map fst r)
         \<and> listDir_pairs ''/'' [''a'', ''B'', ''b''] = r
         \<and> fst (listDir ''/'' (snd (listDir ''/'' unsorted_world))) = Inr r)"
proof -
  have a: "os_path_isdir ''/'' unsorted_world" by code_simp
  have b: "fst (take_fault unsorted_world) = None" by code_simp
  have c: "fst (listDir ''/'' unsorted_world) = Inr [(''/B'', ''B''), (''/a'', ''a''), (''/b'', ''b'')]"
    by code_simp
  have d: "lookup unsorted_world ''/''
      = Some (Dir 493 [(''b'', File 420 []), (''a'', File 420 []), (''B'', Dir 493 [])])"
    by code_simp
  have e: "mset [''a'', ''B'', ''b''] = mset (map fst [(''b'', File 420 []), (''a'', File 420 []), (''B'', Dir 493 [])])"
    by simp
  let ?w2 = "snd (listDir ''/'' unsorted_world)"
  have f: "root ?w2 = root unsorted_world \<and> cwd ?w2 = cwd unsorted_world
      \<and> fst (take_fault ?w2) = None" by code_simp
  from listDir_sorted_deterministic [OF a b] obtain r where
    r: "fst (listDir ''/'' unsorted_world) = Inr r" "sorted r" "sorted (map fst r)"
    and x: "\<exists>m es. lookup unsorted_world ''/'' = Some (Dir m es)
                 \<and> mset r = mset (map (\<lambda>filename. (join2 ''/'' filename, filename)) (map fst es))
                 \<and> (\<forall>names. mset names = mset (map fst es) \<longrightarrow> listDir_pairs ''/'' names = r)"
    and y: "\<forall>w2. root w2 = root unsorted_world \<and> cwd w2 = cwd unsorted_world \<and> fst (take_fault w2) = None
                 \<longrightarrow> fst (listDir ''/'' w2) = Inr r"
    by blast
  have "listDir_pairs ''/'' [''a'', ''B'', ''b''] = r" using x d e by auto
  moreover have "fst (listDir ''/'' ?w2) = Inr r" using y f by blast
  ultimately show ?thesis using a b c r by blast
qed




end
